theory Spec2Isabelle
  imports Complex_Main "HOL-Library.AList" "HOL-Library.Sublist"
begin

section \<open>Python values, dictionaries and exceptions\<close>

text \<open>
  The column values of a row snapshot are Python objects: \<open>None\<close> (SQL NULL), integers,
  floats (carried here by the real number they denote; the program only passes them on, tests
  them for truth and compares them) and strings. A row snapshot and \<open>release_data\<close> are
  dictionaries from column name to value.
\<close>

datatype pyval = PNone | PInt int | PFloat real | PStr string

datatype pyerror = KeyError string | TypeError | OperationalError

type_synonym pydict = "string \<rightharpoonup> pyval"

text \<open>\<open>d[k]\<close>: raises \<open>KeyError\<close> on a missing key.\<close>

definition getitem :: "pydict \<Rightarrow> string \<Rightarrow> pyerror + pyval" where
  "getitem d k = (case d k of None \<Rightarrow> Inl (KeyError k) | Some v \<Rightarrow> Inr v)"

text \<open>\<open>d.get(k, default)\<close> and \<open>d.get(k)\<close>: a key that is present with value \<open>None\<close>
  yields \<open>None\<close>, not the default.\<close>

definition get_default :: "pydict \<Rightarrow> string \<Rightarrow> pyval \<Rightarrow> pyval" where
  "get_default d k dflt = (case d k of None \<Rightarrow> dflt | Some v \<Rightarrow> v)"

definition get :: "pydict \<Rightarrow> string \<Rightarrow> pyval" where
  "get d k = get_default d k PNone"

text \<open>Truth value of an object, and \<open>x or y\<close>.\<close>

fun truthy :: "pyval \<Rightarrow> bool" where
  "truthy PNone = False"
| "truthy (PInt i) = (i \<noteq> 0)"
| "truthy (PFloat r) = (r \<noteq> 0)"
| "truthy (PStr s) = (s \<noteq> [])"

definition py_or :: "pyval \<Rightarrow> pyval \<Rightarrow> pyval" where
  "py_or x y = (if truthy x then x else y)"

text \<open>\<open>v == 4\<close>: numbers compare by value, everything else differs from 4.\<close>

fun eq4 :: "pyval \<Rightarrow> bool" where
  "eq4 (PInt i) = (i = 4)"
| "eq4 (PFloat r) = (r = 4)"
| "eq4 PNone = False"
| "eq4 (PStr s) = False"

text \<open>\<open>v < n\<close> for an integer \<open>n\<close>: \<open>None\<close> and strings do not order against an
  integer (\<open>TypeError\<close>).\<close>

fun lt_int :: "pyval \<Rightarrow> int \<Rightarrow> pyerror + bool" where
  "lt_int (PInt i) n = Inr (i < n)"
| "lt_int (PFloat r) n = Inr (r < of_int n)"
| "lt_int PNone n = Inl TypeError"
| "lt_int (PStr s) n = Inl TypeError"

section \<open>The world the program acts on\<close>

text \<open>
  The two statements the program sends to the index: \<open>REPLACE INTO releases_rt VALUES\<close>
  with nine placeholders, and \<open>DELETE FROM releases_rt WHERE id =\<close> with one.
\<close>

datatype query = REPLACE_INTO_releases_rt | DELETE_FROM_releases_rt

type_synonym command = "query \<times> pyval list"

datatype binlogevent =
    DeleteRowsEvent string "pydict list"
  | WriteRowsEvent string "pydict list"
  | UpdateRowsEvent string "(pydict \<times> pydict) list"

datatype row = Values pydict | BeforeAfter pydict pydict

datatype logline =
    Info_pool_initialized
  | Error_command_failed command pyerror
  | Info_replaced pyval pyval
  | Info_deleted pyval
  | Info_starting_reader
  | Error_processing pyerror
  | Error_event binlogevent
  | Error_row row
  | Info_fetching_groups
  | Warning_groups_failed
  | Info_cached_groups nat int
  | Info_fetching_sections
  | Warning_sections_failed
  | Info_cached_sections nat int
  | Info_test_successful
  | Error_test_failed pyerror
  | Info_starting_updater
  | Error_connect_failed
  | Error_cache_failed
  | Info_init_complete

text \<open>
  The state: the documents of the index, keyed by id; the commands handed to
  \<open>execute_sphinx_command\<close>, oldest first; the log, oldest first; the outcomes of the coming
  uses of the connection pool (\<open>True\<close>: acquiring the connection or executing the statement
  raises; an exhausted list means the index answers); and the module's globals.
\<close>

record world =
  index :: "pyval \<rightharpoonup> pyval list"
  calls :: "command list"
  log :: "logline list"
  faults :: "bool list"
  groups :: "(int \<times> string) list"
  group_max_id_known :: int
  sections :: "(int \<times> string) list"
  section_max_id_known :: int

type_synonym 'a io = "world \<Rightarrow> (pyerror + 'a) \<times> world"

definition logger :: "logline \<Rightarrow> world \<Rightarrow> world" where
  "logger l w = w\<lparr>log := log w @ [l]\<rparr>"

definition last_known_insert :: int where
  "last_known_insert = 14130526"

text \<open>
  Modelled from the spec: the index store's engine is not part of the repository. Section 4.3
  gives the meaning of the two statements: the replace is a full-row replace-by-key (insert if
  absent, overwrite if present) and the delete removes the document with that key if present,
  an absent key not being an error. The key is the first value of the row. The driver fills
  the placeholders of the statement with the parameters and raises when their numbers differ.
\<close>

fun cur_execute :: "command \<Rightarrow> (pyval \<rightharpoonup> pyval list) \<Rightarrow> pyerror + (pyval \<rightharpoonup> pyval list)" where
  "cur_execute (REPLACE_INTO_releases_rt, ps) ix =
     (if length ps = 9 then Inr (ix(hd ps \<mapsto> ps)) else Inl TypeError)"
| "cur_execute (DELETE_FROM_releases_rt, ps) ix =
     (if length ps = 1 then Inr (ix(hd ps := None)) else Inl TypeError)"

text \<open>One use of the pool: the next scripted outcome is consumed.\<close>

definition pool_execute :: "command \<Rightarrow> unit io" where
  "pool_execute c w =
     (case faults w of
        True # fs \<Rightarrow> (Inl OperationalError, w\<lparr>faults := fs\<rparr>)
      | _ \<Rightarrow>
        (case cur_execute c (index w) of
           Inl e \<Rightarrow> (Inl e, w\<lparr>faults := tl (faults w)\<rparr>)
         | Inr ix \<Rightarrow> (Inr (), w\<lparr>index := ix, faults := tl (faults w)\<rparr>)))"

section \<open>The index writer\<close>

definition execute_sphinx_command :: "command \<Rightarrow> bool io" where
  "execute_sphinx_command c w =
     (case pool_execute c (w\<lparr>calls := calls w @ [c]\<rparr>) of
        (Inr u, w') \<Rightarrow> (Inr True, w')
      | (Inl e, w') \<Rightarrow> (Inr False, logger (Error_command_failed c e) w'))"

definition params :: "pydict \<Rightarrow> pyerror + pyval list" where
  "params release_data =
     (case getitem release_data ''id'' of
        Inl e \<Rightarrow> Inl e
      | Inr i \<Rightarrow> Inr
         [i,
          get_default release_data ''releasename'' (PStr ''''),
          get_default release_data ''releasename'' (PStr ''''),
          py_or (get release_data ''groupid'') (PInt 0),
          py_or (get release_data ''sectionid'') (PInt 0),
          py_or (get release_data ''status'') (PInt 0),
          py_or (get release_data ''pretime'') (PInt 0),
          py_or (get release_data ''size'') (PFloat 0),
          py_or (get release_data ''files'') (PInt 0)])"

definition add_release_to_sphinx :: "pydict \<Rightarrow> bool io" where
  "add_release_to_sphinx release_data w =
     (case params release_data of
        Inl e \<Rightarrow> (Inl e, w)
      | Inr ps \<Rightarrow>
        (case execute_sphinx_command (REPLACE_INTO_releases_rt, ps) w of
           (Inl e, w') \<Rightarrow> (Inl e, w')
         | (Inr success, w') \<Rightarrow>
           (if success then
              (case getitem release_data ''id'' of
                 Inl e \<Rightarrow> (Inl e, w')
               | Inr i \<Rightarrow>
                 (case getitem release_data ''releasename'' of
                    Inl e \<Rightarrow> (Inl e, w')
                  | Inr n \<Rightarrow> (Inr success, logger (Info_replaced i n) w')))
            else (Inr success, w'))))"

definition remove_release_from_sphinx :: "pyval \<Rightarrow> bool io" where
  "remove_release_from_sphinx release_id w =
     (case execute_sphinx_command (DELETE_FROM_releases_rt, [release_id]) w of
        (Inl e, w') \<Rightarrow> (Inl e, w')
      | (Inr success, w') \<Rightarrow>
        (if success then (Inr success, logger (Info_deleted release_id) w')
         else (Inr success, w')))"

section \<open>The event classifier and translator\<close>

text \<open>
  The dictionary literal that \<open>main\<close> writes three times, with the same text, once for an
  inserted row and twice for the after snapshot of an updated one. The entries are evaluated in
  order, so a snapshot without \<open>id\<close> raises for \<open>id\<close> before \<open>releasename\<close> is read.
\<close>

definition release_data_of :: "pydict \<Rightarrow> pyerror + pydict" where
  "release_data_of values =
     (case getitem values ''id'' of
        Inl e \<Rightarrow> Inl e
      | Inr i \<Rightarrow>
        (case getitem values ''releasename'' of
           Inl e \<Rightarrow> Inl e
         | Inr n \<Rightarrow> Inr
            [''id'' \<mapsto> i,
             ''releasename'' \<mapsto> n,
             ''groupid'' \<mapsto> get_default values ''groupid'' (PInt 0),
             ''sectionid'' \<mapsto> get_default values ''sectionid'' (PInt 0),
             ''status'' \<mapsto> get_default values ''status'' (PInt 0),
             ''pretime'' \<mapsto> get_default values ''pretime'' (PInt 0),
             ''files'' \<mapsto> get_default values ''files'' (PInt 0),
             ''size'' \<mapsto> get_default values ''size'' (PFloat 0)]))"

text \<open>Building the record and handing it to the writer; the writer's boolean is dropped.\<close>

definition upsert_from :: "pydict \<Rightarrow> unit io" where
  "upsert_from values w =
     (case release_data_of values of
        Inl e \<Rightarrow> (Inl e, w)
      | Inr release_data \<Rightarrow>
        (case add_release_to_sphinx release_data w of
           (Inl e, w') \<Rightarrow> (Inl e, w')
         | (Inr success, w') \<Rightarrow> (Inr (), w')))"

definition on_delete :: "pydict \<Rightarrow> unit io" where
  "on_delete values w =
     (case getitem values ''id'' of
        Inl e \<Rightarrow> (Inl e, w)
      | Inr release_id \<Rightarrow>
        (case remove_release_from_sphinx release_id w of
           (Inl e, w') \<Rightarrow> (Inl e, w')
         | (Inr success, w') \<Rightarrow> (Inr (), w')))"

definition on_write :: "pydict \<Rightarrow> unit io" where
  "on_write values w =
     (case getitem values ''id'' of
        Inl e \<Rightarrow> (Inl e, w)
      | Inr i \<Rightarrow>
        (case lt_int i last_known_insert of
           Inl e \<Rightarrow> (Inl e, w)
         | Inr too_low \<Rightarrow>
           (if too_low then (Inr (), w)
            else if eq4 (get_default values ''status'' (PInt 0)) then (Inr (), w)
            else upsert_from values w)))"

definition on_update :: "pydict \<Rightarrow> pydict \<Rightarrow> unit io" where
  "on_update before_values after_values w =
     (if eq4 (get after_values ''status'') \<and> \<not> eq4 (get before_values ''status'') then
        (case getitem after_values ''id'' of
           Inl e \<Rightarrow> (Inl e, w)
         | Inr release_id \<Rightarrow>
           (case remove_release_from_sphinx release_id w of
              (Inl e, w') \<Rightarrow> (Inl e, w')
            | (Inr success, w') \<Rightarrow> (Inr (), w')))
      else if eq4 (get before_values ''status'') \<and> \<not> eq4 (get after_values ''status'') then
        upsert_from after_values w
      else if \<not> eq4 (get_default after_values ''status'' (PInt 0)) then
        upsert_from after_values w
      else (Inr (), w))"

text \<open>
  The body of the \<open>try\<close>. The stream's library gives the rows of a delete or write event
  the key \<open>values\<close> and those of an update event the keys \<open>before_values\<close> and
  \<open>after_values\<close>; reading the other key raises.
\<close>

fun try_row :: "binlogevent \<Rightarrow> row \<Rightarrow> unit io" where
  "try_row (DeleteRowsEvent t rs) (Values v) w = on_delete v w"
| "try_row (DeleteRowsEvent t rs) (BeforeAfter b a) w = (Inl (KeyError ''values''), w)"
| "try_row (WriteRowsEvent t rs) (Values v) w = on_write v w"
| "try_row (WriteRowsEvent t rs) (BeforeAfter b a) w = (Inl (KeyError ''values''), w)"
| "try_row (UpdateRowsEvent t rs) (BeforeAfter b a) w = on_update b a w"
| "try_row (UpdateRowsEvent t rs) (Values v) w = (Inl (KeyError ''before_values''), w)"

text \<open>The \<open>try\<close> with its \<open>except Exception\<close>: three error lines, then \<open>continue\<close>.\<close>

definition handle_row :: "binlogevent \<Rightarrow> row \<Rightarrow> unit io" where
  "handle_row binlogevent r w =
     (case try_row binlogevent r w of
        (Inr u, w') \<Rightarrow> (Inr (), w')
      | (Inl e, w') \<Rightarrow>
        (Inr (), logger (Error_row r) (logger (Error_event binlogevent)
                   (logger (Error_processing e) w'))))"

fun table :: "binlogevent \<Rightarrow> string" where
  "table (DeleteRowsEvent t rs) = t"
| "table (WriteRowsEvent t rs) = t"
| "table (UpdateRowsEvent t rs) = t"

fun rows :: "binlogevent \<Rightarrow> row list" where
  "rows (DeleteRowsEvent t rs) = map Values rs"
| "rows (WriteRowsEvent t rs) = map Values rs"
| "rows (UpdateRowsEvent t rs) = map (\<lambda>(b, a). BeforeAfter b a) rs"

text \<open>A \<open>for\<close> loop: an exception that leaves the body ends the loop and goes on up.\<close>

fun for_each :: "('a \<Rightarrow> unit io) \<Rightarrow> 'a list \<Rightarrow> unit io" where
  "for_each body [] w = (Inr (), w)"
| "for_each body (x # xs) w =
     (case body x w of
        (Inl e, w') \<Rightarrow> (Inl e, w')
      | (Inr u, w') \<Rightarrow> for_each body xs w')"

definition on_event :: "binlogevent \<Rightarrow> unit io" where
  "on_event binlogevent w =
     (if table binlogevent \<noteq> ''releases'' then (Inr (), w)
      else for_each (handle_row binlogevent) (rows binlogevent) w)"

text \<open>The loop over the stream, on the events the stream delivers before it ends.\<close>

definition consume :: "binlogevent list \<Rightarrow> unit io" where
  "consume stream w = for_each on_event stream w"

definition main :: "binlogevent list \<Rightarrow> unit io" where
  "main stream w = consume stream (logger Info_starting_reader w)"

section \<open>Reference cache and startup\<close>

text \<open>\<open>dict(rows)\<close>: a later row with the same key replaces the value in place.\<close>

definition dict :: "(int \<times> string) list \<Rightarrow> (int \<times> string) list" where
  "dict rs = fold (\<lambda>(k, v). AList.update k v) rs []"

text \<open>\<open>max(d.keys()) if d else 0\<close>\<close>

definition max_key :: "(int \<times> string) list \<Rightarrow> int" where
  "max_key d = (if d = [] then 0 else fold max (map fst d) (fst (hd d)))"

text \<open>
  The first argument of the two loaders is what the source database does with the query:
  the rows it returns, or the exception of the connection or the query.
\<close>

definition fetch_all_groups :: "pyerror + (int \<times> string) list \<Rightarrow> unit io" where
  "fetch_all_groups result w =
     (let w1 = logger Info_fetching_groups w in
      case result of
        Inl e \<Rightarrow> (Inl e, w1)
      | Inr rs \<Rightarrow>
        (if length rs < 1000 then (Inr (), logger Warning_groups_failed w1)
         else
           (let g = dict rs in
            (Inr (), logger (Info_cached_groups (length g) (max_key g))
                       (w1\<lparr>groups := g, group_max_id_known := max_key g\<rparr>)))))"

definition fetch_all_sections :: "pyerror + (int \<times> string) list \<Rightarrow> unit io" where
  "fetch_all_sections result w =
     (let w1 = logger Info_fetching_sections w in
      case result of
        Inl e \<Rightarrow> (Inl e, w1)
      | Inr rs \<Rightarrow>
        (if length rs < 40 then (Inr (), logger Warning_sections_failed w1)
         else
           (let s = dict rs in
            (Inr (), logger (Info_cached_sections (length s) (max_key s))
                       (w1\<lparr>sections := s, section_max_id_known := max_key s\<rparr>)))))"

text \<open>The argument says whether creating the pool connects.\<close>

definition init_sphinx_pool :: "bool \<Rightarrow> unit io" where
  "init_sphinx_pool up w =
     (if up then (Inr (), logger Info_pool_initialized w) else (Inl OperationalError, w))"

definition test_sphinx_connection :: "bool io" where
  "test_sphinx_connection w =
     (case faults w of
        True # fs \<Rightarrow> (Inr False, logger (Error_test_failed OperationalError) (w\<lparr>faults := fs\<rparr>))
      | _ \<Rightarrow> (Inr True, logger Info_test_successful (w\<lparr>faults := tl (faults w)\<rparr>)))"

record environment =
  sphinx_up :: bool
  groups_result :: "pyerror + (int \<times> string) list"
  sections_result :: "pyerror + (int \<times> string) list"

definition startup :: "environment \<Rightarrow> binlogevent list \<Rightarrow> unit io" where
  "startup env stream w =
     (case init_sphinx_pool (sphinx_up env) (logger Info_starting_updater w) of
        (Inl e, w1) \<Rightarrow> (Inl e, w1)
      | (Inr u, w1) \<Rightarrow>
        (case test_sphinx_connection w1 of
           (Inl e, w2) \<Rightarrow> (Inl e, w2)
         | (Inr ok, w2) \<Rightarrow>
           (if \<not> ok then (Inr (), logger Error_connect_failed w2)
            else
              (case fetch_all_groups (groups_result env) w2 of
                 (Inl e, w3) \<Rightarrow> (Inl e, w3)
               | (Inr u, w3) \<Rightarrow>
                 (case fetch_all_sections (sections_result env) w3 of
                    (Inl e, w4) \<Rightarrow> (Inl e, w4)
                  | (Inr u, w4) \<Rightarrow>
                    (if groups w4 = [] \<or> sections w4 = []
                     then (Inr (), logger Error_cache_failed w4)
                     else main stream (logger Info_init_complete w4)))))))"

text \<open>The module's globals as the file initialises them, over a given index and pool script.\<close>

definition initial_world :: "(pyval \<rightharpoonup> pyval list) \<Rightarrow> bool list \<Rightarrow> world" where
  "initial_world ix fs =
     \<lparr>index = ix, calls = [], log = [], faults = fs,
      groups = [], group_max_id_known = 0, sections = [], section_max_id_known = 0\<rparr>"

section \<open>Notions the properties are stated with\<close>

text \<open>The status of a snapshot as the specification reads it: a missing column counts as 0.\<close>

definition status_of :: "pydict \<Rightarrow> pyval" where
  "status_of values = (case values ''status'' of None \<Rightarrow> PInt 0 | Some v \<Rightarrow> v)"

text \<open>The next use of the pool does not raise.\<close>

definition answers :: "world \<Rightarrow> bool" where
  "answers w = (case faults w of [] \<Rightarrow> True | f # fs \<Rightarrow> \<not> f)"

text \<open>The world after the loop has taken one event.\<close>

definition processed :: "binlogevent \<Rightarrow> world \<Rightarrow> world" where
  "processed ev w = snd (consume [ev] w)"

text \<open>
  The specification's defaults: the value of a field, with the default in place of a missing or
  empty one (\<open>None\<close>, zero, the empty string).
\<close>

definition field_or :: "pydict \<Rightarrow> string \<Rightarrow> pyval \<Rightarrow> pyval" where
  "field_or values k dflt =
     (case values k of
        None \<Rightarrow> dflt
      | Some v \<Rightarrow> if v = PNone \<or> v = PInt 0 \<or> v = PFloat 0 \<or> v = PStr [] then dflt else v)"

text \<open>
  The specification's tuple \<open>(id, name, name again, groupId, sectionId, status, preTime, size,
  fileCount)\<close>, with 0 as the default of the integer fields and 0.0 as that of the size.
\<close>

definition documented_tuple :: "pydict \<Rightarrow> pyval \<Rightarrow> pyval \<Rightarrow> pyval list" where
  "documented_tuple values i n =
     [i, n, n,
      field_or values ''groupid'' (PInt 0),
      field_or values ''sectionid'' (PInt 0),
      field_or values ''status'' (PInt 0),
      field_or values ''pretime'' (PInt 0),
      field_or values ''size'' (PFloat 0),
      field_or values ''files'' (PInt 0)]"

text \<open>
  A later world whose reference cache is that of the earlier one and whose log continues it.
\<close>

definition extends :: "world \<Rightarrow> world \<Rightarrow> bool" where
  "extends w w' \<longleftrightarrow>
     groups w' = groups w \<and> sections w' = sections w \<and> prefix (log w) (log w')"

text \<open>The world at the end of \<open>startup\<close>, run from the module's initial globals.\<close>

definition started :: "environment \<Rightarrow> binlogevent list \<Rightarrow> (pyval \<rightharpoonup> pyval list) \<Rightarrow> bool list \<Rightarrow> world" where
  "started env stream ix fs = snd (startup env stream (initial_world ix fs))"

section \<open>Auxiliary facts\<close>

lemma eq4_get: "eq4 (get d ''status'') = eq4 (status_of d)"
  by (simp add: get_def get_default_def status_of_def split: option.splits)

lemma eq4_get_default: "eq4 (get_default d ''status'' (PInt 0)) = eq4 (status_of d)"
  by (simp add: get_default_def status_of_def split: option.splits)

lemma pool_execute_calls: "calls (snd (pool_execute c w)) = calls w"
  by (simp add: pool_execute_def split: list.splits bool.splits sum.splits)

lemma execute_returns: "\<exists>b. fst (execute_sphinx_command c w) = Inr b"
  by (auto simp: execute_sphinx_command_def split: prod.splits sum.splits)

lemma execute_calls: "calls (snd (execute_sphinx_command c w)) = calls w @ [c]"
proof -
  have "calls (snd (pool_execute c (w\<lparr>calls := calls w @ [c]\<rparr>))) = calls w @ [c]"
    by (simp add: pool_execute_calls)
  then show ?thesis
    by (auto simp: execute_sphinx_command_def logger_def split: prod.splits sum.splits)
qed

lemma remove_calls:
  "calls (snd (remove_release_from_sphinx i w)) = calls w @ [(DELETE_FROM_releases_rt, [i])]"
  using execute_calls [of "(DELETE_FROM_releases_rt, [i])" w]
  by (auto simp: remove_release_from_sphinx_def logger_def split: prod.splits sum.splits)

lemma add_calls:
  assumes "params rd = Inr ps"
  shows "calls (snd (add_release_to_sphinx rd w)) = calls w @ [(REPLACE_INTO_releases_rt, ps)]"
  using execute_calls [of "(REPLACE_INTO_releases_rt, ps)" w] assms
  by (auto simp: add_release_to_sphinx_def logger_def split: prod.splits sum.splits)

lemma release_data_of_id:
  assumes "release_data_of values = Inr rd"
  shows "\<exists>i n. values ''id'' = Some i \<and> values ''releasename'' = Some n
           \<and> rd ''id'' = Some i \<and> rd ''releasename'' = Some n"
  using assms
  by (auto simp: release_data_of_def getitem_def split: option.splits)

lemma params_of_record:
  assumes "release_data_of values = Inr rd"
  shows "\<exists>ps. params rd = Inr ps"
  using release_data_of_id [OF assms] by (auto simp: params_def getitem_def)

lemma upsert_from_calls:
  assumes "release_data_of values = Inr rd" "params rd = Inr ps"
  shows "calls (snd (upsert_from values w)) = calls w @ [(REPLACE_INTO_releases_rt, ps)]"
  using add_calls [OF assms(2), of w] assms(1)
  by (auto simp: upsert_from_def split: prod.splits sum.splits)

lemma on_delete_calls:
  assumes "values ''id'' = Some i"
  shows "calls (snd (on_delete values w)) = calls w @ [(DELETE_FROM_releases_rt, [i])]"
  using remove_calls [of i w] assms
  by (auto simp: on_delete_def getitem_def split: prod.splits sum.splits)

lemma handle_row_fst: "fst (handle_row ev r w) = Inr ()"
  by (simp add: handle_row_def split: prod.splits sum.splits)

lemma handle_row_calls: "calls (snd (handle_row ev r w)) = calls (snd (try_row ev r w))"
  by (simp add: handle_row_def logger_def split: prod.splits sum.splits)

lemma handle_row_index: "index (snd (handle_row ev r w)) = index (snd (try_row ev r w))"
  by (simp add: handle_row_def logger_def split: prod.splits sum.splits)

lemma for_each_handle_row:
  "for_each (handle_row ev) (r # rs) w = for_each (handle_row ev) rs (snd (handle_row ev r w))"
  using handle_row_fst [of ev r w]
  by (cases "handle_row ev r w") (auto split: sum.splits)

lemma for_each_handle_row_fst: "fst (for_each (handle_row ev) rs w) = Inr ()"
  by (induction rs arbitrary: w) (simp_all add: for_each_handle_row del: for_each.simps(2))

lemma on_event_fst: "fst (on_event ev w) = Inr ()"
  by (simp add: on_event_def for_each_handle_row_fst)

lemma consume_Nil: "consume [] w = (Inr (), w)"
  by (simp add: consume_def)

lemma consume_Cons: "consume (ev # stream) w = consume stream (snd (on_event ev w))"
  using on_event_fst [of ev w]
  by (cases "on_event ev w") (auto simp: consume_def split: sum.splits)

lemma on_event_one_row:
  assumes "table ev = ''releases''" "rows ev = [r]"
  shows "snd (on_event ev w) = snd (handle_row ev r w)"
  using assms by (simp add: on_event_def for_each_handle_row del: for_each.simps(2))

lemma consume_one_delete:
  "snd (consume [DeleteRowsEvent ''releases'' [v]] w)
     = snd (handle_row (DeleteRowsEvent ''releases'' [v]) (Values v) w)"
  by (simp add: consume_Cons consume_Nil on_event_one_row)

lemma consume_one_write:
  "snd (consume [WriteRowsEvent ''releases'' [v]] w)
     = snd (handle_row (WriteRowsEvent ''releases'' [v]) (Values v) w)"
  by (simp add: consume_Cons consume_Nil on_event_one_row)

lemma consume_one_update:
  "snd (consume [UpdateRowsEvent ''releases'' [(b, a)]] w)
     = snd (handle_row (UpdateRowsEvent ''releases'' [(b, a)]) (BeforeAfter b a) w)"
  by (simp add: consume_Cons consume_Nil on_event_one_row)

lemma on_update_delete_calls:
  assumes "after ''id'' = Some i" "eq4 (status_of after)" "\<not> eq4 (status_of before)"
  shows "calls (snd (on_update before after w)) = calls w @ [(DELETE_FROM_releases_rt, [i])]"
  using remove_calls [of i w] assms
  by (auto simp: on_update_def eq4_get getitem_def split: prod.splits sum.splits)

lemma on_update_upsert:
  assumes "\<not> eq4 (status_of after)"
  shows "on_update before after w = upsert_from after w"
  using assms by (simp add: on_update_def eq4_get eq4_get_default)

lemma on_update_nothing:
  assumes "eq4 (status_of after)" "eq4 (status_of before)"
  shows "on_update before after w = (Inr (), w)"
  using assms by (simp add: on_update_def eq4_get eq4_get_default)

lemma processed_update:
  "calls (processed (UpdateRowsEvent ''releases'' [(b, a)]) w) = calls (snd (on_update b a w))"
  "index (processed (UpdateRowsEvent ''releases'' [(b, a)]) w) = index (snd (on_update b a w))"
  by (simp_all add: processed_def consume_one_update handle_row_calls handle_row_index)

lemma update_upsert_calls:
  assumes "\<not> eq4 (status_of after)" and "release_data_of after = Inr rd"
  shows "\<exists>ps. params rd = Inr ps \<and>
           calls (processed (UpdateRowsEvent ''releases'' [(before, after)]) w)
             = calls w @ [(REPLACE_INTO_releases_rt, ps)]"
proof -
  obtain ps where ps: "params rd = Inr ps"
    using params_of_record [OF assms(2)] by blast
  show ?thesis
    using ps upsert_from_calls [OF assms(2) ps, of w] assms(1)
    by (simp add: processed_update on_update_upsert)
qed

lemma falsy_iff: "\<not> truthy v \<longleftrightarrow> v = PNone \<or> v = PInt 0 \<or> v = PFloat 0 \<or> v = PStr []"
  by (cases v) simp_all

lemma py_or_get: "py_or (get d k) z = field_or d k z"
  by (simp add: py_or_def get_def get_default_def field_or_def falsy_iff split: option.splits)

lemma py_or_get_default:
  "\<not> truthy z \<Longrightarrow> py_or (get_default d k z) z = field_or d k z"
  by (auto simp add: py_or_def get_default_def field_or_def falsy_iff split: option.splits)

lemma params_tuple:
  assumes "rd ''id'' = Some i"
  shows "params rd = Inr (documented_tuple rd i
           (case rd ''releasename'' of None \<Rightarrow> PStr '''' | Some n \<Rightarrow> n))"
  using assms
  by (simp add: params_def getitem_def documented_tuple_def py_or_get get_default_def)

lemma params_record:
  assumes "release_data_of values = Inr rd" "values ''id'' = Some i" "values ''releasename'' = Some n"
  shows "params rd = Inr (documented_tuple values i n)"
proof -
  have rd: "rd = [''id'' \<mapsto> i, ''releasename'' \<mapsto> n,
             ''groupid'' \<mapsto> get_default values ''groupid'' (PInt 0),
             ''sectionid'' \<mapsto> get_default values ''sectionid'' (PInt 0),
             ''status'' \<mapsto> get_default values ''status'' (PInt 0),
             ''pretime'' \<mapsto> get_default values ''pretime'' (PInt 0),
             ''files'' \<mapsto> get_default values ''files'' (PInt 0),
             ''size'' \<mapsto> get_default values ''size'' (PFloat 0)]"
    using assms by (simp add: release_data_of_def getitem_def)
  have g: "get rd ''groupid'' = get_default values ''groupid'' (PInt 0)"
    "get rd ''sectionid'' = get_default values ''sectionid'' (PInt 0)"
    "get rd ''status'' = get_default values ''status'' (PInt 0)"
    "get rd ''pretime'' = get_default values ''pretime'' (PInt 0)"
    "get rd ''files'' = get_default values ''files'' (PInt 0)"
    "get rd ''size'' = get_default values ''size'' (PFloat 0)"
    "rd ''id'' = Some i" "rd ''releasename'' = Some n"
    by (simp_all add: rd get_def get_default_def)
  show ?thesis
    by (simp add: params_def getitem_def g documented_tuple_def py_or_get_default
        get_default_def [of rd])
qed

lemma processed_delete:
  "calls (processed (DeleteRowsEvent ''releases'' [v]) w) = calls (snd (on_delete v w))"
  "index (processed (DeleteRowsEvent ''releases'' [v]) w) = index (snd (on_delete v w))"
  by (simp_all add: processed_def consume_one_delete handle_row_calls handle_row_index)

lemma processed_write:
  "calls (processed (WriteRowsEvent ''releases'' [v]) w) = calls (snd (on_write v w))"
  "index (processed (WriteRowsEvent ''releases'' [v]) w) = index (snd (on_write v w))"
  by (simp_all add: processed_def consume_one_write handle_row_calls handle_row_index)

lemma on_write_too_low:
  assumes "vals ''id'' = Some (PInt k)" "k < last_known_insert"
  shows "on_write vals w = (Inr (), w)"
  using assms by (simp add: on_write_def getitem_def)

lemma on_write_deleted:
  assumes "vals ''id'' = Some (PInt k)" "\<not> k < last_known_insert" "eq4 (status_of vals)"
  shows "on_write vals w = (Inr (), w)"
  using assms by (simp add: on_write_def getitem_def eq4_get_default)

lemma on_write_upsert:
  assumes "vals ''id'' = Some (PInt k)" "\<not> k < last_known_insert" "\<not> eq4 (status_of vals)"
  shows "on_write vals w = upsert_from vals w"
  using assms by (simp add: on_write_def getitem_def eq4_get_default)

lemma execute_index:
  "index (snd (execute_sphinx_command c w))
     = (if answers w then (case cur_execute c (index w) of Inl e \<Rightarrow> index w | Inr ix \<Rightarrow> ix)
        else index w)"
  by (auto simp: execute_sphinx_command_def pool_execute_def answers_def logger_def
      split: list.splits bool.splits sum.splits)

lemma execute_success:
  "fst (execute_sphinx_command c w)
     = Inr (answers w \<and> (case cur_execute c (index w) of Inl e \<Rightarrow> False | Inr ix \<Rightarrow> True))"
  by (auto simp: execute_sphinx_command_def pool_execute_def answers_def logger_def
      split: list.splits bool.splits sum.splits)

lemma params_length: "params rd = Inr ps \<Longrightarrow> length ps = 9"
  by (auto simp: params_def split: sum.splits)

lemma add_index:
  assumes "params rd = Inr ps"
  shows "index (snd (add_release_to_sphinx rd w))
           = (if answers w then (index w)(hd ps \<mapsto> ps) else index w)"
  using execute_index [of "(REPLACE_INTO_releases_rt, ps)" w] assms params_length [OF assms]
  by (auto simp: add_release_to_sphinx_def logger_def split: prod.splits sum.splits)

lemma add_index_raise:
  assumes "params rd = Inl e"
  shows "index (snd (add_release_to_sphinx rd w)) = index w"
  using assms by (simp add: add_release_to_sphinx_def)

lemma remove_index:
  "index (snd (remove_release_from_sphinx k w))
     = (if answers w then (index w)(k := None) else index w)"
  using execute_index [of "(DELETE_FROM_releases_rt, [k])" w]
  by (auto simp: remove_release_from_sphinx_def logger_def split: prod.splits sum.splits)

lemma remove_success:
  "fst (remove_release_from_sphinx k w) = Inr (answers w)"
  using execute_success [of "(DELETE_FROM_releases_rt, [k])" w]
  by (auto simp: remove_release_from_sphinx_def split: prod.splits sum.splits)

lemma answers_index_update: "answers (w\<lparr>index := ix\<rparr>) = answers w"
  by (simp add: answers_def)

lemma add_twice:
  assumes "answers w"
  shows "index (snd (add_release_to_sphinx rd (snd (add_release_to_sphinx rd w))))
           = index (snd (add_release_to_sphinx rd w))"
proof (cases "params rd")
  case (Inl e)
  then show ?thesis by (simp add: add_index_raise)
next
  case (Inr ps)
  then show ?thesis using assms by (simp add: add_index)
qed

lemma remove_twice:
  assumes "answers w"
  shows "index (snd (remove_release_from_sphinx k (snd (remove_release_from_sphinx k w))))
           = index (snd (remove_release_from_sphinx k w))"
  using assms by (simp add: remove_index)

lemma release_data_of_built:
  assumes "vals ''id'' = Some i" "vals ''releasename'' = Some n"
  shows "\<exists>rd. release_data_of vals = Inr rd"
  using assms by (simp add: release_data_of_def getitem_def)

lemma upsert_from_index:
  assumes "release_data_of vals = Inr rd"
  shows "index (snd (upsert_from vals w)) = index (snd (add_release_to_sphinx rd w))"
  using assms by (simp add: upsert_from_def split: prod.splits sum.splits)

lemma consume_fst: "fst (consume stream w) = Inr ()"
  by (induction stream arbitrary: w) (simp_all add: consume_Nil consume_Cons)

lemma consume_append:
  "consume (stream @ stream') w = consume stream' (snd (consume stream w))"
  by (induction stream arbitrary: w) (simp_all add: consume_Nil consume_Cons)

lemma execute_raise:
  assumes "\<not> answers w"
  shows "execute_sphinx_command c w
           = (Inr False, w\<lparr>calls := calls w @ [c], faults := tl (faults w),
                log := log w @ [Error_command_failed c OperationalError]\<rparr>)"
  using assms
  by (auto simp: execute_sphinx_command_def pool_execute_def answers_def logger_def
      split: list.splits bool.splits)

lemma handle_row_raise:
  assumes "try_row ev r w = (Inl e, w')"
  shows "handle_row ev r w
           = (Inr (), w'\<lparr>log := log w' @ [Error_processing e, Error_event ev, Error_row r]\<rparr>)"
  using assms by (simp add: handle_row_def logger_def)

lemma consume_then_delete:
  assumes "vals ''id'' = Some i"
  shows "calls (snd (consume (stream @ [DeleteRowsEvent ''releases'' [vals]]) w))
           = calls (snd (consume stream w)) @ [(DELETE_FROM_releases_rt, [i])]"
  using assms
  by (simp add: consume_append consume_one_delete handle_row_calls on_delete_calls)

lemma on_write_no_name:
  assumes "vals ''id'' = Some (PInt k)" "\<not> k < last_known_insert" "\<not> eq4 (status_of vals)"
    and "vals ''releasename'' = None"
  shows "on_write vals w = (Inl (KeyError ''releasename''), w)"
  using assms(1,4)
  by (simp add: on_write_upsert [OF assms(1-3)] upsert_from_def release_data_of_def getitem_def)

lemma on_update_no_name:
  assumes "\<not> eq4 (status_of after)" "after ''releasename'' = None"
  shows "on_update before after w
           = (Inl (KeyError (if after ''id'' = None then ''id'' else ''releasename'')), w)"
  using assms
  by (auto simp: on_update_upsert upsert_from_def release_data_of_def getitem_def
      split: option.splits)

lemma consume_one_row:
  assumes "table ev = ''releases''" "rows ev = [r]"
  shows "consume (ev # stream) w = consume stream (snd (handle_row ev r w))"
  using assms by (simp add: consume_Cons on_event_one_row)

lemma extends_refl: "extends w w"
  by (simp add: extends_def)

lemma extends_trans: "extends w w' \<Longrightarrow> extends w' w'' \<Longrightarrow> extends w w''"
  by (auto simp: extends_def)

lemma extends_logger: "extends w (logger l w)"
  by (simp add: extends_def logger_def)

lemma execute_extends: "extends w (snd (execute_sphinx_command c w))"
  by (auto simp: extends_def execute_sphinx_command_def pool_execute_def logger_def
      split: list.splits bool.splits sum.splits)

lemma add_extends: "extends w (snd (add_release_to_sphinx rd w))"
proof (cases "params rd")
  case (Inl e)
  then show ?thesis by (simp add: add_release_to_sphinx_def extends_refl)
next
  case (Inr ps)
  obtain r w' where r: "execute_sphinx_command (REPLACE_INTO_releases_rt, ps) w = (r, w')"
    by (cases "execute_sphinx_command (REPLACE_INTO_releases_rt, ps) w")
  then have "extends w w'"
    using execute_extends [of w "(REPLACE_INTO_releases_rt, ps)"] by simp
  moreover have "extends w' (logger l w')" for l
    by (rule extends_logger)
  ultimately have "extends w (logger l w')" for l
    using extends_trans by blast
  then show ?thesis
    using Inr r \<open>extends w w'\<close>
    by (simp add: add_release_to_sphinx_def split: sum.splits)
qed

lemma remove_extends: "extends w (snd (remove_release_from_sphinx k w))"
proof -
  obtain r w' where r: "execute_sphinx_command (DELETE_FROM_releases_rt, [k]) w = (r, w')"
    by (cases "execute_sphinx_command (DELETE_FROM_releases_rt, [k]) w")
  then have "extends w w'"
    using execute_extends [of w "(DELETE_FROM_releases_rt, [k])"] by simp
  moreover have "extends w' (logger l w')" for l
    by (rule extends_logger)
  ultimately have "extends w (logger l w')" for l
    using extends_trans by blast
  then show ?thesis
    using r \<open>extends w w'\<close>
    by (simp add: remove_release_from_sphinx_def split: sum.splits)
qed

lemma upsert_from_extends: "extends w (snd (upsert_from vals w))"
proof (cases "release_data_of vals")
  case (Inl e)
  then show ?thesis by (simp add: upsert_from_def extends_refl)
next
  case (Inr rd)
  obtain r w' where r: "add_release_to_sphinx rd w = (r, w')"
    by (cases "add_release_to_sphinx rd w")
  then have "extends w w'"
    using add_extends [of w rd] by simp
  then show ?thesis
    using Inr r by (cases r) (simp_all add: upsert_from_def)
qed

lemma remove_dropped_extends:
  "extends w (snd (case remove_release_from_sphinx k w of
                     (Inl e, w') \<Rightarrow> (Inl e, w')
                   | (Inr success, w') \<Rightarrow> (Inr (), w')))"
proof -
  obtain r w' where r: "remove_release_from_sphinx k w = (r, w')"
    by (cases "remove_release_from_sphinx k w")
  then have "extends w w'"
    using remove_extends [of w k] by simp
  then show ?thesis
    using r by (cases r) simp_all
qed

lemma on_delete_extends: "extends w (snd (on_delete vals w))"
  by (cases "getitem vals ''id''")
    (simp_all add: on_delete_def extends_refl remove_dropped_extends)

lemma on_write_extends: "extends w (snd (on_write vals w))"
  by (simp add: on_write_def extends_refl upsert_from_extends split: sum.splits)

lemma on_update_extends: "extends w (snd (on_update b a w))"
  by (cases "getitem a ''id''")
    (simp_all add: on_update_def extends_refl upsert_from_extends remove_dropped_extends)

lemma try_row_extends: "extends w (snd (try_row ev r w))"
  by (cases ev; cases r)
    (simp_all add: on_delete_extends on_write_extends on_update_extends extends_refl)

lemma handle_row_extends: "extends w (snd (handle_row ev r w))"
proof -
  obtain x w' where x: "try_row ev r w = (x, w')"
    by (cases "try_row ev r w")
  then have "extends w w'"
    using try_row_extends [of w ev r] by simp
  then show ?thesis
    using x by (cases x) (simp_all add: handle_row_def extends_def logger_def)
qed

lemma for_each_handle_row_extends: "extends w (snd (for_each (handle_row ev) rs w))"
proof (induction rs arbitrary: w)
  case Nil
  show ?case by (simp add: extends_refl)
next
  case (Cons r rs)
  have "extends w (snd (handle_row ev r w))"
    by (rule handle_row_extends)
  moreover have "extends (snd (handle_row ev r w))
                   (snd (for_each (handle_row ev) rs (snd (handle_row ev r w))))"
    by (rule Cons.IH)
  ultimately have "extends w (snd (for_each (handle_row ev) rs (snd (handle_row ev r w))))"
    by (rule extends_trans)
  then show ?case
    by (simp add: for_each_handle_row del: for_each.simps(2))
qed

lemma on_event_extends: "extends w (snd (on_event ev w))"
  by (simp add: on_event_def extends_refl for_each_handle_row_extends)

lemma consume_extends: "extends w (snd (consume stream w))"
proof (induction stream arbitrary: w)
  case Nil
  show ?case by (simp add: consume_Nil extends_refl)
next
  case (Cons ev stream)
  have "extends w (snd (on_event ev w))"
    by (rule on_event_extends)
  moreover have "extends (snd (on_event ev w)) (snd (consume stream (snd (on_event ev w))))"
    by (rule Cons.IH)
  ultimately have "extends w (snd (consume stream (snd (on_event ev w))))"
    by (rule extends_trans)
  then show ?case
    by (simp add: consume_Cons)
qed

lemma main_entered:
  "Info_starting_reader \<in> set (log (snd (main stream w)))
   \<and> groups (snd (main stream w)) = groups w \<and> sections (snd (main stream w)) = sections w"
  using consume_extends [of "logger Info_starting_reader w" stream]
  by (auto simp: main_def extends_def logger_def prefix_def)

lemma update_not_empty: "AList.update k v d \<noteq> []"
  by (cases d) simp_all

lemma fold_update_not_empty:
  "d \<noteq> [] \<Longrightarrow> fold (\<lambda>(k, v). AList.update k v) xs d \<noteq> []"
proof (induction xs arbitrary: d)
  case Nil
  then show ?case by simp
next
  case (Cons x xs)
  obtain k v where x: "x = (k, v)" by (cases x)
  have "AList.update k v d \<noteq> []" by (rule update_not_empty)
  then have "fold (\<lambda>(k, v). AList.update k v) xs (AList.update k v d) \<noteq> []"
    by (rule Cons.IH)
  then show ?case by (simp add: x)
qed

lemma dict_not_empty:
  assumes "rs \<noteq> []"
  shows "dict rs \<noteq> []"
proof -
  obtain k v xs where rs: "rs = (k, v) # xs"
    using assms by (cases rs) auto
  have "fold (\<lambda>(k, v). AList.update k v) xs [(k, v)] \<noteq> []"
    by (rule fold_update_not_empty) simp
  then show ?thesis by (simp add: dict_def rs)
qed

lemma main_groups: "groups (snd (main stream w)) = groups w"
  using main_entered [of stream w] by simp

lemma main_sections: "sections (snd (main stream w)) = sections w"
  using main_entered [of stream w] by simp

lemma main_log: "Info_starting_reader \<in> set (log (snd (main stream w)))"
  using main_entered [of stream w] by simp

lemma dict_long: "\<not> length rs < n \<Longrightarrow> 0 < n \<Longrightarrow> dict rs \<noteq> []"
  by (rule dict_not_empty) auto

lemmas startup_defs = started_def startup_def init_sphinx_pool_def test_sphinx_connection_def
  fetch_all_groups_def fetch_all_sections_def logger_def initial_world_def answers_def Let_def

lemma startup_probe_fails:
  assumes "\<not> answers (initial_world ix fs)"
  shows "Info_starting_reader \<notin> set (log (started env stream ix fs))
       \<and> calls (started env stream ix fs) = []"
  using assms
  by (auto simp: startup_defs split: list.splits bool.splits)

lemma startup_few_groups:
  assumes "groups_result env = Inr rs" "length rs < 1000"
  shows "groups (started env stream ix fs) = []
       \<and> Info_starting_reader \<notin> set (log (started env stream ix fs))
       \<and> calls (started env stream ix fs) = []"
  using assms
  by (auto simp: startup_defs split: list.splits bool.splits sum.splits)

lemma startup_few_sections:
  assumes "sections_result env = Inr rs" "length rs < 40"
  shows "sections (started env stream ix fs) = []
       \<and> Info_starting_reader \<notin> set (log (started env stream ix fs))
       \<and> calls (started env stream ix fs) = []"
  using assms
  by (auto simp: startup_defs split: list.splits bool.splits sum.splits)

lemma startup_entered_only:
  assumes "Info_starting_reader \<in> set (log (started env stream ix fs))"
  shows "sphinx_up env \<and> answers (initial_world ix fs)
       \<and> groups (started env stream ix fs) \<noteq> [] \<and> sections (started env stream ix fs) \<noteq> []"
  using assms
  by (auto simp: startup_defs main_groups main_sections
      split: list.splits bool.splits sum.splits if_splits)

lemma startup_enters:
  assumes "sphinx_up env" "answers (initial_world ix fs)"
    and "groups_result env = Inr gs" "\<not> length gs < 1000"
    and "sections_result env = Inr ss" "\<not> length ss < 40"
  shows "Info_starting_reader \<in> set (log (started env stream ix fs))"
  using assms dict_long [of gs 1000] dict_long [of ss 40]
  by (auto simp: startup_defs main_log split: list.splits bool.splits)

lemma upsert_from_tuple:
  assumes "vals ''id'' = Some i" and "vals ''releasename'' = Some n"
  shows "(\<exists>rd. release_data_of vals = Inr rd \<and> params rd = Inr (documented_tuple vals i n))
       \<and> calls (snd (upsert_from vals w))
           = calls w @ [(REPLACE_INTO_releases_rt, documented_tuple vals i n)]"
proof -
  obtain rd where rd: "release_data_of vals = Inr rd"
    using release_data_of_built [OF assms] by blast
  have ps: "params rd = Inr (documented_tuple vals i n)"
    using rd assms by (rule params_record)
  have "calls (snd (upsert_from vals w))
           = calls w @ [(REPLACE_INTO_releases_rt, documented_tuple vals i n)]"
    using rd ps by (rule upsert_from_calls)
  then show ?thesis using rd ps by blast
qed

section \<open>The update rule\<close>

text \<open>
  Claim C1, as stated, fails: the outcome of an update event is not fixed by the two statuses
  alone. With a before status of 4 and an after status of 1, and also with neither status 4, an
  after snapshot without the \<open>releasename\<close> column sends nothing: the record is built by
  key lookup, the error is caught by the handler of the row, and no replace is issued.
\<close>

theorem update_without_name_counterexample:
  "eq4 (status_of [''status'' \<mapsto> PInt 4])
   \<and> \<not> eq4 (status_of [''id'' \<mapsto> PInt 5, ''status'' \<mapsto> PInt 1])
   \<and> calls (processed (UpdateRowsEvent ''releases''
        [([''status'' \<mapsto> PInt 4], [''id'' \<mapsto> PInt 5, ''status'' \<mapsto> PInt 1])])
        (initial_world Map.empty [])) = []
   \<and> \<not> eq4 (status_of [''id'' \<mapsto> PInt 5, ''status'' \<mapsto> PInt 0])
   \<and> calls (processed (UpdateRowsEvent ''releases''
        [([''id'' \<mapsto> PInt 5, ''status'' \<mapsto> PInt 0], [''id'' \<mapsto> PInt 5, ''status'' \<mapsto> PInt 1])])
        (initial_world Map.empty [])) = []"
  by (simp add: processed_update on_update_no_name status_of_def initial_world_def)

text \<open>
  Claim C1, amended. For an update event on the monitored table whose after snapshot carries
  the \<open>id\<close> column, and in the two replace cases the \<open>releasename\<close> column as well, the
  outcome is fixed by whether the status of the before snapshot and the status of the after
  snapshot equal 4, a missing status counting as 0: into 4, exactly one delete of the after
  snapshot's id; out of 4, exactly one replace of the record built from the after snapshot;
  neither 4, again exactly one replace of that record; both 4, no call and an unchanged index.
  The four conditions exclude each other.
\<close>

theorem update_outcomes:
  "(\<not> eq4 (status_of before) \<and> eq4 (status_of after) \<and> after ''id'' = Some i
      \<longrightarrow> calls (processed (UpdateRowsEvent ''releases'' [(before, after)]) w)
            = calls w @ [(DELETE_FROM_releases_rt, [i])])
   \<and> (eq4 (status_of before) \<and> \<not> eq4 (status_of after)
        \<and> after ''id'' = Some i \<and> after ''releasename'' = Some n
      \<longrightarrow> (\<exists>rd. release_data_of after = Inr rd \<and> params rd = Inr (documented_tuple after i n))
        \<and> calls (processed (UpdateRowsEvent ''releases'' [(before, after)]) w)
            = calls w @ [(REPLACE_INTO_releases_rt, documented_tuple after i n)])
   \<and> (\<not> eq4 (status_of before) \<and> \<not> eq4 (status_of after)
        \<and> after ''id'' = Some i \<and> after ''releasename'' = Some n
      \<longrightarrow> (\<exists>rd. release_data_of after = Inr rd \<and> params rd = Inr (documented_tuple after i n))
        \<and> calls (processed (UpdateRowsEvent ''releases'' [(before, after)]) w)
            = calls w @ [(REPLACE_INTO_releases_rt, documented_tuple after i n)])
   \<and> (eq4 (status_of before) \<and> eq4 (status_of after)
      \<longrightarrow> calls (processed (UpdateRowsEvent ''releases'' [(before, after)]) w) = calls w
          \<and> index (processed (UpdateRowsEvent ''releases'' [(before, after)]) w) = index w)"
proof -
  have del: "calls (processed (UpdateRowsEvent ''releases'' [(before, after)]) w)
            = calls w @ [(DELETE_FROM_releases_rt, [i])]"
    if "\<not> eq4 (status_of before) \<and> eq4 (status_of after) \<and> after ''id'' = Some i"
    using that by (simp add: processed_update on_update_delete_calls)
  have up: "(\<exists>rd. release_data_of after = Inr rd \<and> params rd = Inr (documented_tuple after i n))
        \<and> calls (processed (UpdateRowsEvent ''releases'' [(before, after)]) w)
            = calls w @ [(REPLACE_INTO_releases_rt, documented_tuple after i n)]"
    if "\<not> eq4 (status_of after)" and "after ''id'' = Some i" and "after ''releasename'' = Some n"
    using upsert_from_tuple [OF that(2) that(3), of w] that(1)
    by (simp add: processed_update on_update_upsert)
  have none: "calls (processed (UpdateRowsEvent ''releases'' [(before, after)]) w) = calls w
          \<and> index (processed (UpdateRowsEvent ''releases'' [(before, after)]) w) = index w"
    if "eq4 (status_of before) \<and> eq4 (status_of after)"
    using that by (simp add: processed_update on_update_nothing)
  show ?thesis using del up none by blast
qed

theorem update_outcomes_witness:
  "calls (processed (UpdateRowsEvent ''releases''
       [([''id'' \<mapsto> PInt 7], [''id'' \<mapsto> PInt 7, ''status'' \<mapsto> PInt 4])])
       (initial_world Map.empty [])) = [(DELETE_FROM_releases_rt, [PInt 7])]
   \<and> calls (processed (UpdateRowsEvent ''releases''
       [([''status'' \<mapsto> PInt 4],
         [''id'' \<mapsto> PInt 7, ''releasename'' \<mapsto> PStr ''a'', ''status'' \<mapsto> PInt 1])])
       (initial_world Map.empty []))
      = [(REPLACE_INTO_releases_rt,
          [PInt 7, PStr ''a'', PStr ''a'', PInt 0, PInt 0, PInt 1, PInt 0, PFloat 0, PInt 0])]
   \<and> calls (processed (UpdateRowsEvent ''releases''
       [(Map.empty, [''id'' \<mapsto> PInt 7, ''releasename'' \<mapsto> PStr ''a'', ''files'' \<mapsto> PInt 3])])
       (initial_world Map.empty []))
      = [(REPLACE_INTO_releases_rt,
          [PInt 7, PStr ''a'', PStr ''a'', PInt 0, PInt 0, PInt 0, PInt 0, PFloat 0, PInt 3])]
   \<and> calls (processed (UpdateRowsEvent ''releases''
       [([''status'' \<mapsto> PInt 4], [''id'' \<mapsto> PInt 7, ''status'' \<mapsto> PInt 4])])
       (initial_world Map.empty [])) = []"
proof -
  have a: "calls (processed (UpdateRowsEvent ''releases''
       [([''id'' \<mapsto> PInt 7], [''id'' \<mapsto> PInt 7, ''status'' \<mapsto> PInt 4])])
       (initial_world Map.empty [])) = [(DELETE_FROM_releases_rt, [PInt 7])]"
    using update_outcomes [where before = "[''id'' \<mapsto> PInt 7]"
      and after = "[''id'' \<mapsto> PInt 7, ''status'' \<mapsto> PInt 4]" and i = "PInt 7"
      and n = PNone and w = "initial_world Map.empty []"]
    by (simp add: status_of_def initial_world_def)
  have b: "calls (processed (UpdateRowsEvent ''releases''
       [([''status'' \<mapsto> PInt 4],
         [''id'' \<mapsto> PInt 7, ''releasename'' \<mapsto> PStr ''a'', ''status'' \<mapsto> PInt 1])])
       (initial_world Map.empty []))
      = [(REPLACE_INTO_releases_rt,
          [PInt 7, PStr ''a'', PStr ''a'', PInt 0, PInt 0, PInt 1, PInt 0, PFloat 0, PInt 0])]"
    using update_outcomes [where before = "[''status'' \<mapsto> PInt 4]"
      and after = "[''id'' \<mapsto> PInt 7, ''releasename'' \<mapsto> PStr ''a'', ''status'' \<mapsto> PInt 1]"
      and i = "PInt 7" and n = "PStr ''a''" and w = "initial_world Map.empty []"]
    by (simp add: status_of_def initial_world_def documented_tuple_def field_or_def)
  have c: "calls (processed (UpdateRowsEvent ''releases''
       [(Map.empty, [''id'' \<mapsto> PInt 7, ''releasename'' \<mapsto> PStr ''a'', ''files'' \<mapsto> PInt 3])])
       (initial_world Map.empty []))
      = [(REPLACE_INTO_releases_rt,
          [PInt 7, PStr ''a'', PStr ''a'', PInt 0, PInt 0, PInt 0, PInt 0, PFloat 0, PInt 3])]"
    using update_outcomes [where before = "Map.empty"
      and after = "[''id'' \<mapsto> PInt 7, ''releasename'' \<mapsto> PStr ''a'', ''files'' \<mapsto> PInt 3]"
      and i = "PInt 7" and n = "PStr ''a''" and w = "initial_world Map.empty []"]
    by (simp add: status_of_def initial_world_def documented_tuple_def field_or_def)
  have d: "calls (processed (UpdateRowsEvent ''releases''
       [([''status'' \<mapsto> PInt 4], [''id'' \<mapsto> PInt 7, ''status'' \<mapsto> PInt 4])])
       (initial_world Map.empty [])) = []"
    using update_outcomes [where before = "[''status'' \<mapsto> PInt 4]"
      and after = "[''id'' \<mapsto> PInt 7, ''status'' \<mapsto> PInt 4]"
      and i = "PInt 7" and n = PNone and w = "initial_world Map.empty []"]
    by (simp add: status_of_def initial_world_def)
  show ?thesis using a b c d by blast
qed

section \<open>The insert rule\<close>

text \<open>
  Claim C2, as stated, fails in its last case: an insert event with an id at the threshold and
  status 0 whose row has no \<open>releasename\<close> column sends no replace, the key lookup raising
  while the record is built.
\<close>

theorem insert_no_upsert_counterexample:
  "[''id'' \<mapsto> PInt 14130526, ''status'' \<mapsto> PInt 0] ''id'' = Some (PInt 14130526)
   \<and> \<not> 14130526 < last_known_insert
   \<and> \<not> eq4 (status_of [''id'' \<mapsto> PInt 14130526, ''status'' \<mapsto> PInt 0])
   \<and> calls (processed (WriteRowsEvent ''releases''
         [[''id'' \<mapsto> PInt 14130526, ''status'' \<mapsto> PInt 0]])
         (initial_world Map.empty [])) = []"
proof -
  have "on_write [''id'' \<mapsto> PInt 14130526, ''status'' \<mapsto> PInt 0] (initial_world Map.empty [])
          = (Inl (KeyError ''releasename''), initial_world Map.empty [])"
    by (rule on_write_no_name [where k = 14130526])
      (simp_all add: last_known_insert_def status_of_def)
  then show ?thesis
    by (simp add: processed_write last_known_insert_def status_of_def initial_world_def)
qed

text \<open>
  Claim C2, amended. An insert event on the monitored table whose row has the integer id
  \<open>k\<close>: when \<open>k\<close> is below the replay-skip threshold nothing is sent to the index;
  otherwise, when the status of the row (0 when the column is missing) equals 4, nothing is
  sent either; otherwise, when the row carries the \<open>releasename\<close> column, exactly one
  replace of the record built from the row is sent.
\<close>

theorem insert_outcomes:
  assumes "vals ''id'' = Some (PInt k)"
  shows "(k < last_known_insert
            \<longrightarrow> calls (processed (WriteRowsEvent ''releases'' [vals]) w) = calls w
              \<and> index (processed (WriteRowsEvent ''releases'' [vals]) w) = index w)
       \<and> (\<not> k < last_known_insert \<and> eq4 (status_of vals)
            \<longrightarrow> calls (processed (WriteRowsEvent ''releases'' [vals]) w) = calls w
              \<and> index (processed (WriteRowsEvent ''releases'' [vals]) w) = index w)
       \<and> (\<not> k < last_known_insert \<and> \<not> eq4 (status_of vals)
              \<and> vals ''releasename'' = Some n
            \<longrightarrow> (\<exists>rd. release_data_of vals = Inr rd
                      \<and> params rd = Inr (documented_tuple vals (PInt k) n))
              \<and> calls (processed (WriteRowsEvent ''releases'' [vals]) w)
                  = calls w @ [(REPLACE_INTO_releases_rt, documented_tuple vals (PInt k) n)])"
proof -
  have low: "calls (processed (WriteRowsEvent ''releases'' [vals]) w) = calls w
              \<and> index (processed (WriteRowsEvent ''releases'' [vals]) w) = index w"
    if "k < last_known_insert"
    using that assms by (simp add: processed_write on_write_too_low)
  have gone: "calls (processed (WriteRowsEvent ''releases'' [vals]) w) = calls w
              \<and> index (processed (WriteRowsEvent ''releases'' [vals]) w) = index w"
    if "\<not> k < last_known_insert \<and> eq4 (status_of vals)"
    using that assms by (simp add: processed_write on_write_deleted)
  have up: "(\<exists>rd. release_data_of vals = Inr rd
                      \<and> params rd = Inr (documented_tuple vals (PInt k) n))
              \<and> calls (processed (WriteRowsEvent ''releases'' [vals]) w)
                  = calls w @ [(REPLACE_INTO_releases_rt, documented_tuple vals (PInt k) n)]"
    if "\<not> k < last_known_insert" and "\<not> eq4 (status_of vals)"
      and "vals ''releasename'' = Some n"
    using upsert_from_tuple [OF assms that(3), of w]
    by (simp add: processed_write on_write_upsert [OF assms that(1) that(2)])
  show ?thesis using low gone up by blast
qed

theorem insert_outcomes_witness:
  "calls (processed (WriteRowsEvent ''releases''
       [[''id'' \<mapsto> PInt 50, ''releasename'' \<mapsto> PStr ''a'']]) (initial_world Map.empty [])) = []
   \<and> calls (processed (WriteRowsEvent ''releases''
       [[''id'' \<mapsto> PInt 14130526, ''releasename'' \<mapsto> PStr ''a'', ''status'' \<mapsto> PInt 4]])
       (initial_world Map.empty [])) = []
   \<and> calls (processed (WriteRowsEvent ''releases''
       [[''id'' \<mapsto> PInt 14130526, ''releasename'' \<mapsto> PStr ''a'', ''size'' \<mapsto> PFloat 2]])
       (initial_world Map.empty []))
      = [(REPLACE_INTO_releases_rt,
          [PInt 14130526, PStr ''a'', PStr ''a'', PInt 0, PInt 0, PInt 0, PInt 0, PFloat 2,
           PInt 0])]"
proof -
  have a: "calls (processed (WriteRowsEvent ''releases''
       [[''id'' \<mapsto> PInt 50, ''releasename'' \<mapsto> PStr ''a'']]) (initial_world Map.empty [])) = []"
    using insert_outcomes [where vals = "[''id'' \<mapsto> PInt 50, ''releasename'' \<mapsto> PStr ''a'']"
      and k = 50 and n = "PStr ''a''" and w = "initial_world Map.empty []"]
    by (simp add: initial_world_def last_known_insert_def)
  have b: "calls (processed (WriteRowsEvent ''releases''
       [[''id'' \<mapsto> PInt 14130526, ''releasename'' \<mapsto> PStr ''a'', ''status'' \<mapsto> PInt 4]])
       (initial_world Map.empty [])) = []"
    using insert_outcomes [where vals = "[''id'' \<mapsto> PInt 14130526,
        ''releasename'' \<mapsto> PStr ''a'', ''status'' \<mapsto> PInt 4]"
      and k = 14130526 and n = "PStr ''a''" and w = "initial_world Map.empty []"]
    by (simp add: initial_world_def last_known_insert_def status_of_def)
  have c: "calls (processed (WriteRowsEvent ''releases''
       [[''id'' \<mapsto> PInt 14130526, ''releasename'' \<mapsto> PStr ''a'', ''size'' \<mapsto> PFloat 2]])
       (initial_world Map.empty []))
      = [(REPLACE_INTO_releases_rt,
          [PInt 14130526, PStr ''a'', PStr ''a'', PInt 0, PInt 0, PInt 0, PInt 0, PFloat 2,
           PInt 0])]"
    using insert_outcomes [where vals = "[''id'' \<mapsto> PInt 14130526,
        ''releasename'' \<mapsto> PStr ''a'', ''size'' \<mapsto> PFloat 2]"
      and k = 14130526 and n = "PStr ''a''" and w = "initial_world Map.empty []"]
    by (simp add: initial_world_def last_known_insert_def status_of_def documented_tuple_def
        field_or_def)
  show ?thesis using a b c by blast
qed

section \<open>The delete rule and the reach of the threshold\<close>

text \<open>
  Claim C3. A delete event on the monitored table sends one delete of the id of its row
  snapshot, whatever the row is otherwise. The replay-skip threshold does not bear on delete and
  update events: with an id below the threshold a delete event still sends its delete, an update
  event still sends its delete or its replace, and only an insert event sends nothing.
\<close>

theorem delete_unconditional:
  "(vals ''id'' = Some i
      \<longrightarrow> calls (processed (DeleteRowsEvent ''releases'' [vals]) w)
            = calls w @ [(DELETE_FROM_releases_rt, [i])])
   \<and> (k < last_known_insert \<and> vals ''id'' = Some (PInt k)
      \<longrightarrow> calls (processed (DeleteRowsEvent ''releases'' [vals]) w)
            = calls w @ [(DELETE_FROM_releases_rt, [PInt k])])
   \<and> (k < last_known_insert \<and> after ''id'' = Some (PInt k)
        \<and> \<not> eq4 (status_of before) \<and> eq4 (status_of after)
      \<longrightarrow> calls (processed (UpdateRowsEvent ''releases'' [(before, after)]) w)
            = calls w @ [(DELETE_FROM_releases_rt, [PInt k])])
   \<and> (k < last_known_insert \<and> after ''id'' = Some (PInt k)
        \<and> \<not> eq4 (status_of after) \<and> release_data_of after = Inr rd
      \<longrightarrow> (\<exists>ps. params rd = Inr ps \<and>
            calls (processed (UpdateRowsEvent ''releases'' [(before, after)]) w)
              = calls w @ [(REPLACE_INTO_releases_rt, ps)]))
   \<and> (k < last_known_insert \<and> vals ''id'' = Some (PInt k)
      \<longrightarrow> calls (processed (WriteRowsEvent ''releases'' [vals]) w) = calls w)"
proof (intro conjI impI)
  assume "vals ''id'' = Some i"
  then show "calls (processed (DeleteRowsEvent ''releases'' [vals]) w)
            = calls w @ [(DELETE_FROM_releases_rt, [i])]"
    by (simp add: processed_delete on_delete_calls)
next
  assume "k < last_known_insert \<and> vals ''id'' = Some (PInt k)"
  then show "calls (processed (DeleteRowsEvent ''releases'' [vals]) w)
            = calls w @ [(DELETE_FROM_releases_rt, [PInt k])]"
    by (simp add: processed_delete on_delete_calls)
next
  assume "k < last_known_insert \<and> after ''id'' = Some (PInt k)
        \<and> \<not> eq4 (status_of before) \<and> eq4 (status_of after)"
  then show "calls (processed (UpdateRowsEvent ''releases'' [(before, after)]) w)
            = calls w @ [(DELETE_FROM_releases_rt, [PInt k])]"
    by (simp add: processed_update on_update_delete_calls)
next
  assume "k < last_known_insert \<and> after ''id'' = Some (PInt k)
        \<and> \<not> eq4 (status_of after) \<and> release_data_of after = Inr rd"
  then show "\<exists>ps. params rd = Inr ps \<and>
            calls (processed (UpdateRowsEvent ''releases'' [(before, after)]) w)
              = calls w @ [(REPLACE_INTO_releases_rt, ps)]"
    using update_upsert_calls by blast
next
  assume "k < last_known_insert \<and> vals ''id'' = Some (PInt k)"
  then show "calls (processed (WriteRowsEvent ''releases'' [vals]) w) = calls w"
    by (simp add: processed_write on_write_too_low)
qed

theorem delete_unconditional_witness:
  "calls (processed (DeleteRowsEvent ''releases'' [[''id'' \<mapsto> PInt 50]])
       (initial_world Map.empty [])) = [(DELETE_FROM_releases_rt, [PInt 50])]
   \<and> calls (processed (UpdateRowsEvent ''releases''
       [([''id'' \<mapsto> PInt 50, ''status'' \<mapsto> PInt 1], [''id'' \<mapsto> PInt 50, ''status'' \<mapsto> PInt 4])])
       (initial_world Map.empty [])) = [(DELETE_FROM_releases_rt, [PInt 50])]
   \<and> calls (processed (UpdateRowsEvent ''releases''
       [(Map.empty, [''id'' \<mapsto> PInt 50, ''releasename'' \<mapsto> PStr ''a''])])
       (initial_world Map.empty []))
      = [(REPLACE_INTO_releases_rt,
          [PInt 50, PStr ''a'', PStr ''a'', PInt 0, PInt 0, PInt 0, PInt 0, PFloat 0, PInt 0])]
   \<and> calls (processed (WriteRowsEvent ''releases'' [[''id'' \<mapsto> PInt 50]])
       (initial_world Map.empty [])) = []"
  using
    delete_unconditional [where vals = "[''id'' \<mapsto> PInt 50]" and i = "PInt 50" and k = 50
      and before = "[''id'' \<mapsto> PInt 50, ''status'' \<mapsto> PInt 1]"
      and after = "[''id'' \<mapsto> PInt 50, ''status'' \<mapsto> PInt 4]"
      and w = "initial_world Map.empty []"]
    delete_unconditional [where vals = "[''id'' \<mapsto> PInt 50]" and i = "PInt 50" and k = 50
      and before = "Map.empty"
      and after = "[''id'' \<mapsto> PInt 50, ''releasename'' \<mapsto> PStr ''a'']"
      and rd = "[''id'' \<mapsto> PInt 50, ''releasename'' \<mapsto> PStr ''a'',
                 ''groupid'' \<mapsto> PInt 0, ''sectionid'' \<mapsto> PInt 0, ''status'' \<mapsto> PInt 0,
                 ''pretime'' \<mapsto> PInt 0, ''files'' \<mapsto> PInt 0, ''size'' \<mapsto> PFloat 0]"
      and w = "initial_world Map.empty []"]
  by (simp add: status_of_def release_data_of_def getitem_def get_default_def get_def
      params_def py_or_def initial_world_def last_known_insert_def)

section \<open>The document an insert leaves in the index\<close>

text \<open>
  Claim C4, as stated, fails: an insert event with id at or above the threshold and a status
  other than 4 whose snapshot has no \<open>releasename\<close> column leaves no document under its
  id. The column is read by key when the record is built, the error is caught by the handler of
  the row, and nothing is sent.
\<close>

theorem insert_without_name_counterexample:
  "[''id'' \<mapsto> PInt 14130526, ''status'' \<mapsto> PInt 0] ''id'' = Some (PInt 14130526)
   \<and> \<not> 14130526 < last_known_insert
   \<and> \<not> eq4 (status_of [''id'' \<mapsto> PInt 14130526, ''status'' \<mapsto> PInt 0])
   \<and> answers (initial_world Map.empty [])
   \<and> index (processed (WriteRowsEvent ''releases''
         [[''id'' \<mapsto> PInt 14130526, ''status'' \<mapsto> PInt 0]])
         (initial_world Map.empty [])) (PInt 14130526) = None"
  by (simp add: processed_write on_write_def upsert_from_def release_data_of_def getitem_def
      get_default_def status_of_def answers_def initial_world_def last_known_insert_def)

text \<open>
  Claim C4, amended. For an insert event with integer id \<open>k\<close> at or above the threshold and
  a status other than 4, whose snapshot carries the \<open>releasename\<close> column and whose
  statement the index executes, the document with key \<open>k\<close> exists after the event and is
  the tuple of the snapshot's values with the documented defaults.
\<close>

theorem insert_document:
  assumes "vals ''id'' = Some (PInt k)" and "\<not> k < last_known_insert"
    and "\<not> eq4 (status_of vals)" and "vals ''releasename'' = Some n" and "answers w"
  shows "index (processed (WriteRowsEvent ''releases'' [vals]) w) (PInt k)
           = Some (documented_tuple vals (PInt k) n)"
proof -
  obtain rd where rd: "release_data_of vals = Inr rd"
    using release_data_of_built [OF assms(1) assms(4)] by blast
  have ps: "params rd = Inr (documented_tuple vals (PInt k) n)"
    using rd assms(1) assms(4) by (rule params_record)
  have "index (processed (WriteRowsEvent ''releases'' [vals]) w)
          = index (snd (add_release_to_sphinx rd w))"
    by (simp add: processed_write on_write_upsert [OF assms(1-3)] upsert_from_index [OF rd])
  then show ?thesis
    using assms(5) by (simp add: add_index [OF ps] documented_tuple_def)
qed

theorem insert_document_witness:
  "index (processed (WriteRowsEvent ''releases''
       [[''id'' \<mapsto> PInt 14130526, ''releasename'' \<mapsto> PStr ''a'', ''files'' \<mapsto> PInt 2]])
       (initial_world Map.empty [])) (PInt 14130526)
     = Some [PInt 14130526, PStr ''a'', PStr ''a'', PInt 0, PInt 0, PInt 0, PInt 0, PFloat 0,
             PInt 2]"
  using insert_document [where vals = "[''id'' \<mapsto> PInt 14130526, ''releasename'' \<mapsto> PStr ''a'',
                                        ''files'' \<mapsto> PInt 2]"
      and k = 14130526 and n = "PStr ''a''" and w = "initial_world Map.empty []"]
  by (simp add: status_of_def answers_def initial_world_def last_known_insert_def
      documented_tuple_def field_or_def)

section \<open>The tuple of the replace\<close>

text \<open>
  Claim C5. \<open>add_release_to_sphinx\<close> sends a single replace whose parameters are, in
  order, the id, the name, the name again, group id, section id, status, pre-time, size and
  file count, with 0 in place of a missing or empty integer field and 0.0 in place of a missing
  or empty size (and the empty string in place of a missing name). These are nine values for
  the eight fields of the record, the name being sent twice. For the record that \<open>main\<close>
  builds from a snapshot the tuple is that of the snapshot's own values.
\<close>

theorem upsert_tuple:
  assumes "release_data ''id'' = Some i"
  shows "calls (snd (add_release_to_sphinx release_data w))
           = calls w @ [(REPLACE_INTO_releases_rt,
               documented_tuple release_data i
                 (case release_data ''releasename'' of None \<Rightarrow> PStr [] | Some n \<Rightarrow> n))]
       \<and> length (documented_tuple release_data i
                 (case release_data ''releasename'' of None \<Rightarrow> PStr [] | Some n \<Rightarrow> n)) = 9
       \<and> (release_data_of vals = Inr rd \<and> vals ''id'' = Some j \<and> vals ''releasename'' = Some m
            \<longrightarrow> params rd = Inr (documented_tuple vals j m))"
proof -
  have "params release_data = Inr (documented_tuple release_data i
          (case release_data ''releasename'' of None \<Rightarrow> PStr [] | Some n \<Rightarrow> n))"
    using assms by (rule params_tuple)
  then have "calls (snd (add_release_to_sphinx release_data w))
           = calls w @ [(REPLACE_INTO_releases_rt,
               documented_tuple release_data i
                 (case release_data ''releasename'' of None \<Rightarrow> PStr [] | Some n \<Rightarrow> n))]"
    by (rule add_calls)
  moreover have "length (documented_tuple release_data i
                 (case release_data ''releasename'' of None \<Rightarrow> PStr [] | Some n \<Rightarrow> n)) = 9"
    by (simp add: documented_tuple_def)
  ultimately show ?thesis
    by (simp add: params_record)
qed

theorem upsert_tuple_witness:
  "calls (snd (add_release_to_sphinx
       [''id'' \<mapsto> PInt 7, ''releasename'' \<mapsto> PStr ''a'', ''groupid'' \<mapsto> PNone,
        ''sectionid'' \<mapsto> PInt 3, ''pretime'' \<mapsto> PInt 0, ''size'' \<mapsto> PInt 0]
       (initial_world Map.empty [])))
     = [(REPLACE_INTO_releases_rt,
         [PInt 7, PStr ''a'', PStr ''a'', PInt 0, PInt 3, PInt 0, PInt 0, PFloat 0, PInt 0])]
   \<and> params [''id'' \<mapsto> PInt 7, ''releasename'' \<mapsto> PStr ''a'', ''groupid'' \<mapsto> PInt 0,
              ''sectionid'' \<mapsto> PInt 0, ''status'' \<mapsto> PInt 0, ''pretime'' \<mapsto> PInt 0,
              ''files'' \<mapsto> PInt 5, ''size'' \<mapsto> PFloat 0]
     = Inr [PInt 7, PStr ''a'', PStr ''a'', PInt 0, PInt 0, PInt 0, PInt 0, PFloat 0, PInt 5]"
proof -
  note inst = upsert_tuple [where release_data =
        "[''id'' \<mapsto> PInt 7, ''releasename'' \<mapsto> PStr ''a'', ''groupid'' \<mapsto> PNone,
          ''sectionid'' \<mapsto> PInt 3, ''pretime'' \<mapsto> PInt 0, ''size'' \<mapsto> PInt 0]"
      and i = "PInt 7" and w = "initial_world Map.empty []"
      and vals = "[''id'' \<mapsto> PInt 7, ''releasename'' \<mapsto> PStr ''a'', ''files'' \<mapsto> PInt 5]"
      and rd = "[''id'' \<mapsto> PInt 7, ''releasename'' \<mapsto> PStr ''a'', ''groupid'' \<mapsto> PInt 0,
                 ''sectionid'' \<mapsto> PInt 0, ''status'' \<mapsto> PInt 0, ''pretime'' \<mapsto> PInt 0,
                 ''files'' \<mapsto> PInt 5, ''size'' \<mapsto> PFloat 0]"
      and j = "PInt 7" and m = "PStr ''a''"]
  have a: "calls (snd (add_release_to_sphinx
       [''id'' \<mapsto> PInt 7, ''releasename'' \<mapsto> PStr ''a'', ''groupid'' \<mapsto> PNone,
        ''sectionid'' \<mapsto> PInt 3, ''pretime'' \<mapsto> PInt 0, ''size'' \<mapsto> PInt 0]
       (initial_world Map.empty [])))
     = [(REPLACE_INTO_releases_rt,
         [PInt 7, PStr ''a'', PStr ''a'', PInt 0, PInt 3, PInt 0, PInt 0, PFloat 0, PInt 0])]"
    using inst by (simp add: documented_tuple_def field_or_def initial_world_def)
  have b: "params [''id'' \<mapsto> PInt 7, ''releasename'' \<mapsto> PStr ''a'', ''groupid'' \<mapsto> PInt 0,
              ''sectionid'' \<mapsto> PInt 0, ''status'' \<mapsto> PInt 0, ''pretime'' \<mapsto> PInt 0,
              ''files'' \<mapsto> PInt 5, ''size'' \<mapsto> PFloat 0]
     = Inr [PInt 7, PStr ''a'', PStr ''a'', PInt 0, PInt 0, PInt 0, PInt 0, PFloat 0, PInt 5]"
    using inst
    by (simp add: release_data_of_def getitem_def get_default_def documented_tuple_def
        field_or_def)
  show ?thesis using a b by blast
qed

section \<open>Idempotence of the writer\<close>

text \<open>
  Claim C6. With the index as a map from id to document and a pool that answers: replacing the
  same record twice leaves the index as replacing it once does, the replace setting the
  document under the key whether or not one was there; deleting a key succeeds and leaves the
  index without the key, whether or not the key was present, leaves an index without the key
  as it is, and deleting twice is as deleting once.
\<close>

theorem writer_idempotent:
  assumes "answers w"
  shows "index (snd (add_release_to_sphinx rd (snd (add_release_to_sphinx rd w))))
           = index (snd (add_release_to_sphinx rd w))
       \<and> (params rd = Inr ps
            \<longrightarrow> index (snd (add_release_to_sphinx rd w)) = (index w)(hd ps \<mapsto> ps))
       \<and> fst (remove_release_from_sphinx k w) = Inr True
       \<and> index (snd (remove_release_from_sphinx k w)) = (index w)(k := None)
       \<and> (index w k = None \<longrightarrow> index (snd (remove_release_from_sphinx k w)) = index w)
       \<and> index (snd (remove_release_from_sphinx k (w\<lparr>index := (index w)(k \<mapsto> d)\<rparr>)))
           = index (snd (remove_release_from_sphinx k (w\<lparr>index := (index w)(k := None)\<rparr>)))
       \<and> index (snd (remove_release_from_sphinx k (snd (remove_release_from_sphinx k w))))
           = index (snd (remove_release_from_sphinx k w))"
  using assms add_twice [OF assms, of rd] remove_twice [OF assms, of k]
  by (auto simp: add_index remove_index remove_success answers_index_update)

theorem writer_idempotent_witness:
  "index (snd (add_release_to_sphinx [''id'' \<mapsto> PInt 7, ''releasename'' \<mapsto> PStr ''a'']
       (snd (add_release_to_sphinx [''id'' \<mapsto> PInt 7, ''releasename'' \<mapsto> PStr ''a'']
          (initial_world Map.empty [])))))
     = [PInt 7 \<mapsto> [PInt 7, PStr ''a'', PStr ''a'', PInt 0, PInt 0, PInt 0, PInt 0, PFloat 0,
                       PInt 0]]
   \<and> fst (remove_release_from_sphinx (PInt 7) (initial_world Map.empty [])) = Inr True
   \<and> index (snd (remove_release_from_sphinx (PInt 7) (initial_world Map.empty []))) = Map.empty"
  using writer_idempotent [where w = "initial_world Map.empty []"
      and rd = "[''id'' \<mapsto> PInt 7, ''releasename'' \<mapsto> PStr ''a'']"
      and ps = "[PInt 7, PStr ''a'', PStr ''a'', PInt 0, PInt 0, PInt 0, PInt 0, PFloat 0, PInt 0]"
      and k = "PInt 7"]
  by (simp add: answers_def initial_world_def params_def getitem_def get_default_def get_def
      py_or_def)

section \<open>Rows whose status is NULL\<close>




section \<open>Containment of errors\<close>

text \<open>
  Claim C7. \<open>execute_sphinx_command\<close> never raises: it returns a boolean, and when the
  pool or the statement raises it returns \<open>False\<close> after logging the command and the
  error. The handler of a row never raises either: an error of the body is logged with the
  event and the row, and the loop over the rows goes on with the next row. So the loop over the
  stream never ends with an error, the events of a stream are taken one after the other from
  the world the earlier ones left, whatever went wrong in them, and a delete event that
  follows any stream still sends its delete.
\<close>

theorem errors_contained:
  "(\<exists>b. fst (execute_sphinx_command c w) = Inr b)
   \<and> (\<not> answers w
      \<longrightarrow> execute_sphinx_command c w
           = (Inr False, w\<lparr>calls := calls w @ [c], faults := tl (faults w),
                log := log w @ [Error_command_failed c OperationalError]\<rparr>))
   \<and> fst (handle_row ev r w) = Inr ()
   \<and> (try_row ev r w = (Inl e, w')
      \<longrightarrow> handle_row ev r w
           = (Inr (), w'\<lparr>log := log w' @ [Error_processing e, Error_event ev, Error_row r]\<rparr>))
   \<and> for_each (handle_row ev) (r # rs) w = for_each (handle_row ev) rs (snd (handle_row ev r w))
   \<and> fst (consume stream w) = Inr ()
   \<and> consume (stream @ stream') w = consume stream' (snd (consume stream w))
   \<and> (vals ''id'' = Some i
      \<longrightarrow> calls (snd (consume (stream @ [DeleteRowsEvent ''releases'' [vals]]) w))
           = calls (snd (consume stream w)) @ [(DELETE_FROM_releases_rt, [i])])"
proof (intro conjI impI)
  show "\<exists>b. fst (execute_sphinx_command c w) = Inr b" by (rule execute_returns)
  show "fst (handle_row ev r w) = Inr ()" by (rule handle_row_fst)
  show "for_each (handle_row ev) (r # rs) w
          = for_each (handle_row ev) rs (snd (handle_row ev r w))"
    by (rule for_each_handle_row)
  show "fst (consume stream w) = Inr ()" by (rule consume_fst)
  show "consume (stream @ stream') w = consume stream' (snd (consume stream w))"
    by (rule consume_append)
next
  assume "\<not> answers w"
  then show "execute_sphinx_command c w
           = (Inr False, w\<lparr>calls := calls w @ [c], faults := tl (faults w),
                log := log w @ [Error_command_failed c OperationalError]\<rparr>)"
    by (rule execute_raise)
next
  assume "try_row ev r w = (Inl e, w')"
  then show "handle_row ev r w
           = (Inr (), w'\<lparr>log := log w' @ [Error_processing e, Error_event ev, Error_row r]\<rparr>)"
    by (rule handle_row_raise)
next
  assume "vals ''id'' = Some i"
  then show "calls (snd (consume (stream @ [DeleteRowsEvent ''releases'' [vals]]) w))
           = calls (snd (consume stream w)) @ [(DELETE_FROM_releases_rt, [i])]"
    by (rule consume_then_delete)
qed

theorem errors_contained_witness:
  "fst (execute_sphinx_command (DELETE_FROM_releases_rt, [PInt 3]) (initial_world Map.empty [True]))
     = Inr False
   \<and> log (snd (handle_row (DeleteRowsEvent ''releases'' [Map.empty]) (Values Map.empty)
         (initial_world Map.empty [])))
     = [Error_processing (KeyError ''id''), Error_event (DeleteRowsEvent ''releases'' [Map.empty]),
        Error_row (Values Map.empty)]
   \<and> calls (snd (consume [DeleteRowsEvent ''releases'' [Map.empty],
                           DeleteRowsEvent ''releases'' [[''id'' \<mapsto> PInt 3]]]
         (initial_world Map.empty [])))
     = [(DELETE_FROM_releases_rt, [PInt 3])]"
proof -
  have a: "fst (execute_sphinx_command (DELETE_FROM_releases_rt, [PInt 3])
              (initial_world Map.empty [True])) = Inr False"
    using errors_contained [where c = "(DELETE_FROM_releases_rt, [PInt 3])"
        and w = "initial_world Map.empty [True]" and ev = "DeleteRowsEvent ''releases'' []"
        and r = "Values Map.empty" and e = TypeError and w' = "initial_world Map.empty []"
        and rs = "[]" and stream = "[]" and stream' = "[]" and vals = Map.empty and i = PNone]
    by (simp add: answers_def initial_world_def)
  have t: "try_row (DeleteRowsEvent ''releases'' [Map.empty]) (Values Map.empty)
             (initial_world Map.empty []) = (Inl (KeyError ''id''), initial_world Map.empty [])"
    by (simp add: on_delete_def getitem_def)
  note inst = errors_contained [where c = "(DELETE_FROM_releases_rt, [PInt 3])"
        and w = "initial_world Map.empty []" and ev = "DeleteRowsEvent ''releases'' [Map.empty]"
        and r = "Values Map.empty" and e = "KeyError ''id''" and w' = "initial_world Map.empty []"
        and rs = "[]" and stream = "[DeleteRowsEvent ''releases'' [Map.empty]]" and stream' = "[]"
        and vals = "[''id'' \<mapsto> PInt 3]" and i = "PInt 3"]
  have b: "log (snd (handle_row (DeleteRowsEvent ''releases'' [Map.empty]) (Values Map.empty)
              (initial_world Map.empty [])))
     = [Error_processing (KeyError ''id''), Error_event (DeleteRowsEvent ''releases'' [Map.empty]),
        Error_row (Values Map.empty)]"
    using inst t by (simp add: initial_world_def)
  have "calls (snd (consume [DeleteRowsEvent ''releases'' [Map.empty]]
              (initial_world Map.empty []))) = []"
    using t by (simp add: consume_one_delete handle_row_calls initial_world_def)
  then have c: "calls (snd (consume [DeleteRowsEvent ''releases'' [Map.empty],
                           DeleteRowsEvent ''releases'' [[''id'' \<mapsto> PInt 3]]]
         (initial_world Map.empty [])))
     = [(DELETE_FROM_releases_rt, [PInt 3])]"
    using inst by simp
  show ?thesis using a b c by blast
qed

section \<open>Snapshots without a name\<close>

text \<open>
  Claim C10. An insert event with id at or above the threshold and a status other than 4 whose
  snapshot has no \<open>releasename\<close> column changes nothing but the log: the key lookup raises
  while the record is built, the handler catches and logs the error with the event and the row,
  no command is sent, and the loop goes on with the rest of the stream. The same holds for an
  update event that reaches a replace branch (the status of the after snapshot is not 4) and
  whose after snapshot has no \<open>releasename\<close> column.
\<close>

theorem missing_name_skipped:
  "(vals ''id'' = Some (PInt k) \<and> \<not> k < last_known_insert \<and> \<not> eq4 (status_of vals)
      \<and> vals ''releasename'' = None
     \<longrightarrow> consume (WriteRowsEvent ''releases'' [vals] # stream) w
          = consume stream
              (w\<lparr>log := log w @ [Error_processing (KeyError ''releasename''),
                    Error_event (WriteRowsEvent ''releases'' [vals]), Error_row (Values vals)]\<rparr>))
   \<and> (\<not> eq4 (status_of after) \<and> after ''releasename'' = None
     \<longrightarrow> consume (UpdateRowsEvent ''releases'' [(before, after)] # stream) w
          = consume stream
              (w\<lparr>log := log w @
                    [Error_processing
                       (KeyError (if after ''id'' = None then ''id'' else ''releasename'')),
                     Error_event (UpdateRowsEvent ''releases'' [(before, after)]),
                     Error_row (BeforeAfter before after)]\<rparr>))"
proof (intro conjI impI)
  assume a: "vals ''id'' = Some (PInt k) \<and> \<not> k < last_known_insert \<and> \<not> eq4 (status_of vals)
      \<and> vals ''releasename'' = None"
  have "try_row (WriteRowsEvent ''releases'' [vals]) (Values vals) w
          = (Inl (KeyError ''releasename''), w)"
    using a by (simp add: on_write_no_name)
  then show "consume (WriteRowsEvent ''releases'' [vals] # stream) w
          = consume stream
              (w\<lparr>log := log w @ [Error_processing (KeyError ''releasename''),
                    Error_event (WriteRowsEvent ''releases'' [vals]), Error_row (Values vals)]\<rparr>)"
    by (simp add: consume_one_row handle_row_raise)
next
  assume a: "\<not> eq4 (status_of after) \<and> after ''releasename'' = None"
  have "try_row (UpdateRowsEvent ''releases'' [(before, after)]) (BeforeAfter before after) w
          = (Inl (KeyError (if after ''id'' = None then ''id'' else ''releasename'')), w)"
    using a by (simp add: on_update_no_name)
  then show "consume (UpdateRowsEvent ''releases'' [(before, after)] # stream) w
          = consume stream
              (w\<lparr>log := log w @
                    [Error_processing
                       (KeyError (if after ''id'' = None then ''id'' else ''releasename'')),
                     Error_event (UpdateRowsEvent ''releases'' [(before, after)]),
                     Error_row (BeforeAfter before after)]\<rparr>)"
    by (simp add: consume_one_row handle_row_raise)
qed

theorem missing_name_skipped_witness:
  "calls (snd (consume [WriteRowsEvent ''releases'' [[''id'' \<mapsto> PInt 14130526]],
                        DeleteRowsEvent ''releases'' [[''id'' \<mapsto> PInt 3]]]
        (initial_world Map.empty [])))
     = [(DELETE_FROM_releases_rt, [PInt 3])]
   \<and> calls (snd (consume [UpdateRowsEvent ''releases''
                          [([''status'' \<mapsto> PInt 4], [''id'' \<mapsto> PInt 5, ''status'' \<mapsto> PInt 1])],
                        DeleteRowsEvent ''releases'' [[''id'' \<mapsto> PInt 3]]]
        (initial_world Map.empty [])))
     = [(DELETE_FROM_releases_rt, [PInt 3])]"
proof -
  note inst = missing_name_skipped [where vals = "[''id'' \<mapsto> PInt 14130526]" and k = 14130526
      and stream = "[DeleteRowsEvent ''releases'' [[''id'' \<mapsto> PInt 3]]]"
      and w = "initial_world Map.empty []"
      and before = "[''status'' \<mapsto> PInt 4]"
      and after = "[''id'' \<mapsto> PInt 5, ''status'' \<mapsto> PInt 1]"]
  have a: "consume [WriteRowsEvent ''releases'' [[''id'' \<mapsto> PInt 14130526]],
                    DeleteRowsEvent ''releases'' [[''id'' \<mapsto> PInt 3]]]
             (initial_world Map.empty [])
           = consume [DeleteRowsEvent ''releases'' [[''id'' \<mapsto> PInt 3]]]
               ((initial_world Map.empty [])
                  \<lparr>log := log (initial_world Map.empty []) @
                     [Error_processing (KeyError ''releasename''),
                      Error_event (WriteRowsEvent ''releases'' [[''id'' \<mapsto> PInt 14130526]]),
                      Error_row (Values [''id'' \<mapsto> PInt 14130526])]\<rparr>)"
    using inst by (simp add: status_of_def last_known_insert_def)
  have b: "consume [UpdateRowsEvent ''releases''
                      [([''status'' \<mapsto> PInt 4], [''id'' \<mapsto> PInt 5, ''status'' \<mapsto> PInt 1])],
                    DeleteRowsEvent ''releases'' [[''id'' \<mapsto> PInt 3]]]
             (initial_world Map.empty [])
           = consume [DeleteRowsEvent ''releases'' [[''id'' \<mapsto> PInt 3]]]
               ((initial_world Map.empty [])
                  \<lparr>log := log (initial_world Map.empty []) @
                     [Error_processing (KeyError ''releasename''),
                      Error_event (UpdateRowsEvent ''releases''
                        [([''status'' \<mapsto> PInt 4], [''id'' \<mapsto> PInt 5, ''status'' \<mapsto> PInt 1])]),
                      Error_row (BeforeAfter [''status'' \<mapsto> PInt 4]
                        [''id'' \<mapsto> PInt 5, ''status'' \<mapsto> PInt 1])]\<rparr>)"
    using inst by (simp add: status_of_def)
  show ?thesis
    unfolding a b
    by (simp add: consume_one_delete handle_row_calls on_delete_calls initial_world_def)
qed

section \<open>Startup gating\<close>

text \<open>
  Claim C8. Run from the module's initial globals: when the probe of the index fails the loop
  over the stream is not entered and nothing is sent; when the group table returns fewer than
  1000 rows the group mapping is left empty and the loop is not entered; when the section table
  returns fewer than 40 rows the section mapping is left empty and the loop is not entered. The
  loop is entered only when the pool was created, the probe succeeded and both mappings are
  non-empty, and it is entered when in addition both tables return at least their minimum.
\<close>

theorem startup_gating:
  "(\<not> answers (initial_world ix fs)
      \<longrightarrow> Info_starting_reader \<notin> set (log (started env stream ix fs))
        \<and> calls (started env stream ix fs) = [])
   \<and> (groups_result env = Inr rs \<and> length rs < 1000
      \<longrightarrow> groups (started env stream ix fs) = []
        \<and> Info_starting_reader \<notin> set (log (started env stream ix fs))
        \<and> calls (started env stream ix fs) = [])
   \<and> (sections_result env = Inr rs' \<and> length rs' < 40
      \<longrightarrow> sections (started env stream ix fs) = []
        \<and> Info_starting_reader \<notin> set (log (started env stream ix fs))
        \<and> calls (started env stream ix fs) = [])
   \<and> (Info_starting_reader \<in> set (log (started env stream ix fs))
      \<longrightarrow> sphinx_up env \<and> answers (initial_world ix fs)
        \<and> groups (started env stream ix fs) \<noteq> []
        \<and> sections (started env stream ix fs) \<noteq> [])
   \<and> (sphinx_up env \<and> answers (initial_world ix fs)
        \<and> groups_result env = Inr gs \<and> \<not> length gs < 1000
        \<and> sections_result env = Inr ss \<and> \<not> length ss < 40
      \<longrightarrow> Info_starting_reader \<in> set (log (started env stream ix fs)))"
  using startup_probe_fails [of ix fs env stream]
    startup_few_groups [of env rs stream ix fs]
    startup_few_sections [of env rs' stream ix fs]
    startup_entered_only [of env stream ix fs]
    startup_enters [of env ix fs gs ss stream]
  by blast

theorem startup_gating_witness:
  "Info_starting_reader \<notin> set (log (started
       \<lparr>sphinx_up = True, groups_result = Inr [], sections_result = Inr []\<rparr> []
       Map.empty [True]))
   \<and> groups (started
       \<lparr>sphinx_up = True, groups_result = Inr [], sections_result = Inr []\<rparr> []
       Map.empty []) = []
   \<and> sections (started
       \<lparr>sphinx_up = True, groups_result = Inr [], sections_result = Inr []\<rparr> []
       Map.empty []) = []
   \<and> Info_starting_reader \<in> set (log (started
       \<lparr>sphinx_up = True, groups_result = Inr (map (\<lambda>i. (int i, ''g'')) [0..<1000]),
        sections_result = Inr (map (\<lambda>i. (int i, ''s'')) [0..<40])\<rparr> []
       Map.empty []))
   \<and> groups (started
       \<lparr>sphinx_up = True, groups_result = Inr (map (\<lambda>i. (int i, ''g'')) [0..<1000]),
        sections_result = Inr (map (\<lambda>i. (int i, ''s'')) [0..<40])\<rparr> []
       Map.empty []) \<noteq> []"
proof -
  have a: "Info_starting_reader \<notin> set (log (started
       \<lparr>sphinx_up = True, groups_result = Inr [], sections_result = Inr []\<rparr> []
       Map.empty [True]))"
    using startup_gating [where ix = Map.empty and fs = "[True]" and stream = "[]"
        and env = "\<lparr>sphinx_up = True, groups_result = Inr [], sections_result = Inr []\<rparr>"
        and rs = "[]" and rs' = "[]" and gs = "[]" and ss = "[]"]
    by (simp add: answers_def initial_world_def)
  have b: "groups (started
       \<lparr>sphinx_up = True, groups_result = Inr [], sections_result = Inr []\<rparr> []
       Map.empty []) = []
     \<and> sections (started
       \<lparr>sphinx_up = True, groups_result = Inr [], sections_result = Inr []\<rparr> []
       Map.empty []) = []"
    using startup_gating [where ix = Map.empty and fs = "[]" and stream = "[]"
        and env = "\<lparr>sphinx_up = True, groups_result = Inr [], sections_result = Inr []\<rparr>"
        and rs = "[]" and rs' = "[]" and gs = "[]" and ss = "[]"]
    by simp
  note big = startup_gating [where ix = Map.empty and fs = "[]" and stream = "[]"
        and env = "\<lparr>sphinx_up = True,
                    groups_result = Inr (map (\<lambda>i. (int i, ''g'')) [0..<1000]),
                    sections_result = Inr (map (\<lambda>i. (int i, ''s'')) [0..<40])\<rparr>"
        and rs = "[]" and rs' = "[]"
        and gs = "map (\<lambda>i. (int i, ''g'')) [0..<1000]"
        and ss = "map (\<lambda>i. (int i, ''s'')) [0..<40]"]
  have c: "Info_starting_reader \<in> set (log (started
       \<lparr>sphinx_up = True, groups_result = Inr (map (\<lambda>i. (int i, ''g'')) [0..<1000]),
        sections_result = Inr (map (\<lambda>i. (int i, ''s'')) [0..<40])\<rparr> []
       Map.empty []))"
    using big by (simp add: answers_def initial_world_def)
  then have d: "groups (started
       \<lparr>sphinx_up = True, groups_result = Inr (map (\<lambda>i. (int i, ''g'')) [0..<1000]),
        sections_result = Inr (map (\<lambda>i. (int i, ''s'')) [0..<40])\<rparr> []
       Map.empty []) \<noteq> []"
    using big by blast
  show ?thesis using a b c d by blast
qed

end
